theory Spec2Isabelle
  imports Main "HOL-Library.AList"
begin

section \<open>Values and entities\<close>

text \<open>
  Attribute values of an entity as Python sees them. \<open>VNone\<close> is \<open>None\<close> (SQL NULL),
  \<open>VUuid\<close> a \<open>uuid.UUID\<close> (its 128-bit integer), \<open>VTime\<close> a timezone-aware
  \<open>datetime\<close> (microseconds since the epoch), \<open>VList\<close> a collection.
\<close>

datatype val =
    VNone
  | VBool bool
  | VInt int
  | VStr string
  | VUuid nat
  | VTime int
  | VList "val list"

text \<open>
  Python truthiness, as tested by \<^verbatim>\<open>if v\<close> in the comprehension of \<open>update_item\<close>:
  \<open>None\<close>, \<open>False\<close>, \<open>0\<close>, the empty string and the empty collection are falsy;
  a \<open>UUID\<close> and a \<open>datetime\<close> define neither \<open>__bool__\<close> nor \<open>__len__\<close> and are
  always truthy.
\<close>

fun truthy :: "val \<Rightarrow> bool" where
  "truthy VNone = False"
| "truthy (VBool b) = b"
| "truthy (VInt i) = (i \<noteq> 0)"
| "truthy (VStr s) = (s \<noteq> [])"
| "truthy (VUuid u) = True"
| "truthy (VTime t) = True"
| "truthy (VList xs) = (xs \<noteq> [])"

text \<open>
  A mapped class deriving from \<open>Base\<close> (src/model/base.py): its table name and the
  columns the subclass declares. \<open>Base\<close> contributes \<open>id\<close>, \<open>created_at\<close> and
  \<open>updated_at\<close>; a column collection holds every name once (a subclass that declares
  one of the three again overrides it).
\<close>

record table =
  tablename :: string
  own_columns :: "string list"

definition base_columns :: "string list" where
  "base_columns = [''id'', ''created_at'', ''updated_at'']"

definition columns :: "table \<Rightarrow> string list" where
  "columns t = remdups (base_columns @ own_columns t)"

text \<open>
  An instance of a mapped class: its class and its attribute dictionary. An attribute
  that was never set reads as \<open>None\<close>, as a column attribute of a mapped instance does.
\<close>

record obj =
  cls :: table
  attrs :: "string \<Rightarrow> val"

definition setattr :: "obj \<Rightarrow> string \<Rightarrow> val \<Rightarrow> obj" where
  "setattr ob attr v = ob\<lparr>attrs := (attrs ob)(attr := v)\<rparr>"

text \<open>
  \<open>data.to_dict()\<close> of \<open>CommonTableAttributes\<close>: every column of the instance's own
  class paired with the instance's current value, in column order.
\<close>

definition to_dict :: "obj \<Rightarrow> (string \<times> val) list" where
  "to_dict d = map (\<lambda>c. (c, attrs d c)) (columns (cls d))"

section \<open>The session and the process environment\<close>

text \<open>
  The exceptions the access layer lets through: \<open>NoResultFound\<close> and
  \<open>MultipleResultsFound\<close> from \<open>Result.one()\<close>, \<open>KeyError\<close> from the column
  collection's \<open>__getitem__\<close>, \<open>IntegrityError\<close> from an INSERT that repeats a
  primary key.
\<close>

datatype error =
    NoResultFound
  | MultipleResultsFound
  | KeyError string
  | IntegrityError

datatype call = Add | Flush | Execute

text \<open>
  The state the four functions run against. The session is the ORM's: \<open>heap\<close> holds
  every object the session knows (an object's address is its index, so a mutation in
  place is a list update), \<open>new\<close> the addresses staged by \<open>add\<close> and not yet flushed,
  \<open>persistent\<close> the addresses of the flushed rows in storage order, \<open>calls\<close> the
  session methods invoked so far. The process environment is the wall clock behind
  \<open>datetime.now(UTC)\<close> (\<open>clock s n\<close> is the reading of the \<open>n\<close>-th call, \<open>ticks\<close>
  counts the calls made) and the generator behind \<open>uuid4\<close> (\<open>uuids\<close>, \<open>draws\<close>).
\<close>

record session =
  heap :: "obj list"
  new :: "nat list"
  persistent :: "nat list"
  calls :: "call list"
  clock :: "nat \<Rightarrow> int"
  ticks :: nat
  uuids :: "nat \<Rightarrow> nat"
  draws :: nat

definition datetime_now :: "session \<Rightarrow> val \<times> session" where
  "datetime_now s = (VTime (clock s (ticks s)), s\<lparr>ticks := Suc (ticks s)\<rparr>)"

definition uuid4 :: "session \<Rightarrow> val \<times> session" where
  "uuid4 s = (VUuid (uuids s (draws s)), s\<lparr>draws := Suc (draws s)\<rparr>)"

text \<open>
  \<open>session.add(data)\<close> stages the object. The address the object gets is returned, so
  that the caller can read \<open>data.id\<close> after the flush.
\<close>

definition add :: "session \<Rightarrow> obj \<Rightarrow> nat \<times> session" where
  "add s data =
     (length (heap s),
      s\<lparr>heap := heap s @ [data],
        new := new s @ [length (heap s)],
        calls := calls s @ [Add]\<rparr>)"

text \<open>
  A column default of \<open>Base\<close> fires at INSERT when the attribute is \<open>None\<close>:
  \<^verbatim>\<open>id = mapped_column(default=uuid4, primary_key=True, ...)\<close>,
  \<^verbatim>\<open>created_at = mapped_column(..., default=lambda: datetime.now(UTC), ...)\<close>,
  \<^verbatim>\<open>updated_at = mapped_column(..., default=lambda: datetime.now(UTC), ...)\<close>.
  Each default is a callable of its own, called once per row, in column order.
\<close>

definition apply_default ::
  "string \<Rightarrow> (session \<Rightarrow> val \<times> session) \<Rightarrow> nat \<Rightarrow> session \<Rightarrow> session" where
  "apply_default col gen a s =
     (if attrs (heap s ! a) col = VNone
      then (let (v, s') = gen s
            in s'\<lparr>heap := (heap s')[a := setattr (heap s' ! a) col v]\<rparr>)
      else s)"

text \<open>
  The INSERT of one staged object: the defaults, then the primary key constraint of
  \<open>id\<close> within the object's table, then the row.
\<close>

definition insert_row :: "nat \<Rightarrow> session \<Rightarrow> (error + unit) \<times> session" where
  "insert_row a s =
     (let s1 = apply_default ''id'' uuid4 a s;
          s2 = apply_default ''created_at'' datetime_now a s1;
          s3 = apply_default ''updated_at'' datetime_now a s2
      in if list_ex (\<lambda>b. cls (heap s3 ! b) = cls (heap s3 ! a) \<and>
                          attrs (heap s3 ! b) ''id'' = attrs (heap s3 ! a) ''id'')
              (persistent s3)
         then (Inl IntegrityError, s3)
         else (Inr (), s3\<lparr>persistent := persistent s3 @ [a]\<rparr>))"

fun flush_rows :: "nat list \<Rightarrow> session \<Rightarrow> (error + unit) \<times> session" where
  "flush_rows [] s = (Inr (), s)"
| "flush_rows (a # as) s =
     (case insert_row a s of
        (Inl e, s') \<Rightarrow> (Inl e, s')
      | (Inr u, s') \<Rightarrow> flush_rows as s')"

definition flush :: "session \<Rightarrow> (error + unit) \<times> session" where
  "flush s =
     (case flush_rows (new s) (s\<lparr>calls := calls s @ [Flush]\<rparr>) of
        (Inl e, s') \<Rightarrow> (Inl e, s')
      | (Inr u, s') \<Rightarrow> (Inr (), s'\<lparr>new := []\<rparr>))"

text \<open>
  A SELECT statement: \<open>select(table)\<close> and the equality predicates added by
  \<open>.where(column == value)\<close>. \<open>column\<close> is \<^verbatim>\<open>table.__table__.c[attr]\<close>.
\<close>

record stmt =
  from_table :: table
  wheres :: "(string \<times> val) list"

definition select :: "table \<Rightarrow> stmt" where
  "select t = \<lparr>from_table = t, wheres = []\<rparr>"

definition where_eq :: "stmt \<Rightarrow> string \<Rightarrow> val \<Rightarrow> stmt" where
  "where_eq st c v = st\<lparr>wheres := wheres st @ [(c, v)]\<rparr>"

definition column :: "table \<Rightarrow> string \<Rightarrow> error + string" where
  "column t attr = (if attr \<in> set (columns t) then Inr attr else Inl (KeyError attr))"

definition row_matches :: "stmt \<Rightarrow> obj \<Rightarrow> bool" where
  "row_matches st ob =
     (cls ob = from_table st \<and> list_all (\<lambda>(c, v). attrs ob c = v) (wheres st))"

definition execute :: "session \<Rightarrow> stmt \<Rightarrow> nat list \<times> session" where
  "execute s st =
     (filter (\<lambda>a. row_matches st (heap s ! a)) (persistent s),
      s\<lparr>calls := calls s @ [Execute]\<rparr>)"

text \<open>\<open>result.scalars().one()\<close>: exactly one row, or an exception.\<close>

fun one :: "nat list \<Rightarrow> error + nat" where
  "one [] = Inl NoResultFound"
| "one [a] = Inr a"
| "one (a # b # rest) = Inl MultipleResultsFound"

section \<open>The access layer (src/router/base.py)\<close>

text \<open>
  \<^verbatim>\<open>
  async def read_item_by_id(session, table, id):
      stmt = select(table).where(table.__table__.c.id == id)
      result = await session.execute(stmt)
      return result.scalars().one()
  \<close>
\<close>

definition read_item_by_id :: "session \<Rightarrow> table \<Rightarrow> val \<Rightarrow> (error + nat) \<times> session" where
  "read_item_by_id s t i =
     (let st = where_eq (select t) ''id'' i;
          (result, s') = execute s st
      in (one result, s'))"

text \<open>
  \<^verbatim>\<open>
  async def read_items_by_attrs(session, table, **kwargs):
      stmt = select(table)
      for attr, value in kwargs.items():
          if value is not None:
              stmt = stmt.where(table.__table__.c[attr] == value)
      result = await session.execute(stmt)
      return result.scalars().all()
  \<close>
  The loop over the keyword arguments is \<open>build_filters\<close>; the lookup of an unknown
  column raises before the statement is executed.
\<close>

fun build_filters :: "table \<Rightarrow> (string \<times> val) list \<Rightarrow> stmt \<Rightarrow> error + stmt" where
  "build_filters t [] st = Inr st"
| "build_filters t ((attr, v) # kwargs) st =
     (if v \<noteq> VNone
      then (case column t attr of
              Inl e \<Rightarrow> Inl e
            | Inr c \<Rightarrow> build_filters t kwargs (where_eq st c v))
      else build_filters t kwargs st)"

definition read_items_by_attrs ::
  "session \<Rightarrow> table \<Rightarrow> (string \<times> val) list \<Rightarrow> (error + nat list) \<times> session" where
  "read_items_by_attrs s t kwargs =
     (case build_filters t kwargs (select t) of
        Inl e \<Rightarrow> (Inl e, s)
      | Inr st \<Rightarrow> (let (result, s') = execute s st in (Inr result, s')))"

text \<open>
  \<^verbatim>\<open>
  async def create_item(session, table, data):
      session.add(data)
      await session.flush()
      return await read_item_by_id(session, table, data.id)
  \<close>
\<close>

definition create_item :: "session \<Rightarrow> table \<Rightarrow> obj \<Rightarrow> (error + nat) \<times> session" where
  "create_item s t data =
     (let (a, s1) = add s data
      in case flush s1 of
           (Inl e, s2) \<Rightarrow> (Inl e, s2)
         | (Inr u, s2) \<Rightarrow> read_item_by_id s2 t (attrs (heap s2 ! a) ''id''))"

text \<open>
  \<^verbatim>\<open>
  async def update_item(session, id, data, table):
      data_ = {k: v for k, v in data.to_dict().items() if v}
      data_["updated_at"] = datetime.datetime.now(datetime.UTC)
      result = await read_item_by_id(session=session, table=table, id=id)
      for attr, value in data_.items():
          setattr(result, attr, value)
      return result
  \<close>
  A dictionary assignment replaces the value of a key that is present and appends a
  key that is not: \<open>AList.update\<close>.
\<close>

definition update_item ::
  "session \<Rightarrow> val \<Rightarrow> obj \<Rightarrow> table \<Rightarrow> (error + nat) \<times> session" where
  "update_item s i data t =
     (let data0 = filter (\<lambda>(k, v). truthy v) (to_dict data);
          (now, s1) = datetime_now s;
          data1 = AList.update ''updated_at'' now data0;
          (r, s2) = read_item_by_id s1 t i
      in case r of
           Inl e \<Rightarrow> (Inl e, s2)
         | Inr a \<Rightarrow>
             (Inr a,
              s2\<lparr>heap := (heap s2)[a := fold (\<lambda>(attr, v) ob. setattr ob attr v) data1 (heap s2 ! a)]\<rparr>))"

section \<open>Notions the properties are stated with\<close>

text \<open>The rows of table \<open>t\<close> whose \<open>id\<close> column equals \<open>i\<close>, in storage order.\<close>

definition id_matches :: "session \<Rightarrow> table \<Rightarrow> val \<Rightarrow> nat list" where
  "id_matches s t i =
     filter (\<lambda>a. cls (heap s ! a) = t \<and> attrs (heap s ! a) ''id'' = i) (persistent s)"


text \<open>
  Every address the session holds denotes an object of its heap. The ORM keeps this by
  construction: \<open>add\<close> is the only way an address enters \<open>new\<close>, a flush the only
  way one enters \<open>persistent\<close>.
\<close>

definition wf_session :: "session \<Rightarrow> bool" where
  "wf_session s =
     (list_all (\<lambda>a. a < length (heap s)) (persistent s) \<and>
      list_all (\<lambda>a. a < length (heap s)) (new s))"

text \<open>
  Inside \<open>create_item\<close>: the session as the flush starts on it (the candidate staged),
  the session once the objects staged before the candidate are inserted, and the session
  the flush leaves behind.
\<close>

definition staged :: "session \<Rightarrow> obj \<Rightarrow> session" where
  "staged s data = (snd (add s data))\<lparr>calls := calls (snd (add s data)) @ [Flush]\<rparr>"

definition earlier_flushed :: "session \<Rightarrow> obj \<Rightarrow> session" where
  "earlier_flushed s data = snd (flush_rows (new s) (staged s data))"

definition after_flush :: "session \<Rightarrow> obj \<Rightarrow> session" where
  "after_flush s data = snd (flush (snd (add s data)))"

text \<open>The invariant of the data model: \<open>created_at \<le> updated_at\<close>, both being times.\<close>

definition ts_ordered :: "obj \<Rightarrow> bool" where
  "ts_ordered ob =
     (case (attrs ob ''created_at'', attrs ob ''updated_at'') of
        (VTime c, VTime u) \<Rightarrow> c \<le> u
      | _ \<Rightarrow> False)"

text \<open>
  The invariant that carries it through a session: the clock does not run backwards,
  nothing is left staged, and every row was created no later than the clock's next
  reading.
\<close>

definition ts_bounded :: "session \<Rightarrow> obj \<Rightarrow> bool" where
  "ts_bounded s ob =
     (case (attrs ob ''created_at'', attrs ob ''updated_at'') of
        (VTime c, VTime u) \<Rightarrow> c \<le> u \<and> c \<le> clock s (ticks s)
      | _ \<Rightarrow> False)"



section \<open>Sample data\<close>

definition Item :: table where
  "Item = \<lparr>tablename = ''item'', own_columns = [''name'', ''count'', ''active'']\<rparr>"

definition Other :: table where
  "Other = \<lparr>tablename = ''other'', own_columns = [''label'']\<rparr>"

definition alice :: obj where
  "alice = \<lparr>cls = Item,
            attrs = (\<lambda>k. VNone)(''id'' := VUuid 11, ''created_at'' := VTime 10,
                      ''updated_at'' := VTime 10, ''name'' := VStr ''Alice'',
                      ''count'' := VInt 5, ''active'' := VBool True)\<rparr>"

definition carol :: obj where
  "carol = \<lparr>cls = Item,
            attrs = (\<lambda>k. VNone)(''id'' := VUuid 12, ''created_at'' := VTime 20,
                      ''updated_at'' := VTime 25, ''name'' := VStr ''Carol'',
                      ''count'' := VInt 0, ''active'' := VBool True)\<rparr>"

text \<open>A session with no row, one with two rows, and one whose two rows share an id.\<close>

definition empty_session :: session where
  "empty_session = \<lparr>heap = [], new = [], persistent = [], calls = [],
                     clock = (\<lambda>n. 100 + int n), ticks = 0,
                     uuids = (\<lambda>n. 1000 + n), draws = 0\<rparr>"

definition two_rows :: session where
  "two_rows = empty_session\<lparr>heap := [alice, carol], persistent := [0, 1]\<rparr>"


text \<open>
  Two update payloads: the one of the specification's example, and one that carries an
  identifier and a creation time of its own.
\<close>

definition bob :: obj where
  "bob = \<lparr>cls = Item,
          attrs = (\<lambda>k. VNone)(''name'' := VStr ''Bob'', ''count'' := VInt 0,
                    ''active'' := VBool False)\<rparr>"


section \<open>Lookup by identifier\<close>

lemma execute_id_matches:
  "fst (execute s (where_eq (select t) ''id'' i)) = id_matches s t i"
  by (simp add: execute_def where_eq_def select_def row_matches_def id_matches_def)

lemma read_item_by_id_one:
  "fst (read_item_by_id s t i) = one (id_matches s t i)"
  by (simp add: read_item_by_id_def execute_def where_eq_def select_def row_matches_def
        id_matches_def Let_def)

lemma read_item_by_id_session:
  "snd (read_item_by_id s t i) = s\<lparr>calls := calls s @ [Execute]\<rparr>"
  by (simp add: read_item_by_id_def execute_def Let_def)





lemma one_Inr_mem: "one xs = Inr a \<Longrightarrow> xs = [a]"
  by (cases xs rule: one.cases) simp_all

lemma id_matches_mem: "id_matches s t i = [a] \<Longrightarrow> a \<in> set (persistent s)"
proof -
  assume "id_matches s t i = [a]"
  then have "a \<in> set (id_matches s t i)" by simp
  then show ?thesis by (simp add: id_matches_def)
qed

lemma wf_persistent: "wf_session s \<Longrightarrow> a \<in> set (persistent s) \<Longrightarrow> a < length (heap s)"
  by (simp add: wf_session_def list_all_iff)

lemma wf_two_rows: "wf_session two_rows"
  by (simp add: wf_session_def two_rows_def empty_session_def)

section \<open>Partial update\<close>

text \<open>The loop of \<open>setattr\<close> calls, on a dictionary (whose keys are distinct).\<close>

lemma fold_setattr_cls:
  "cls (fold (\<lambda>(attr, v) ob. setattr ob attr v) kvs ob) = cls ob"
  by (induction kvs arbitrary: ob) (auto simp: setattr_def)

lemma fold_setattr_attrs:
  "distinct (map fst kvs) \<Longrightarrow>
   attrs (fold (\<lambda>(attr, v) ob. setattr ob attr v) kvs ob) k =
     (case map_of kvs k of Some v \<Rightarrow> v | None \<Rightarrow> attrs ob k)"
proof (induction kvs arbitrary: ob)
  case Nil
  then show ?case by simp
next
  case (Cons p kvs)
  obtain k0 v0 where p: "p = (k0, v0)" by (cases p)
  from Cons.prems p have d: "distinct (map fst kvs)" and n: "k0 \<notin> fst ` set kvs" by auto
  from n have "map_of kvs k0 = None" by (simp add: map_of_eq_None_iff)
  with Cons.IH [OF d, of "setattr ob k0 v0"] p show ?case
    by (auto simp: setattr_def split: option.splits)
qed

lemma distinct_columns: "distinct (columns t)"
  by (simp add: columns_def)

lemma map_of_truthy_to_dict:
  "map_of (filter (\<lambda>(k, v). truthy v) (to_dict d)) k =
     (if k \<in> set (columns (cls d)) \<and> truthy (attrs d k) then Some (attrs d k) else None)"
proof -
  have "map_of (filter (\<lambda>(k, v). truthy v) (map (\<lambda>c. (c, attrs d c)) cs)) k =
     (if k \<in> set cs \<and> truthy (attrs d k) then Some (attrs d k) else None)" for cs
    by (induction cs) auto
  then show ?thesis by (simp add: to_dict_def)
qed

lemma distinct_truthy_to_dict:
  "distinct (map fst (filter (\<lambda>(k, v). truthy v) (to_dict d)))"
proof -
  have "map fst (to_dict d) = columns (cls d)"
    by (simp add: to_dict_def comp_def)
  then show ?thesis
    using distinct_map_filter [of fst "to_dict d"] distinct_columns [of "cls d"] by simp
qed

lemma patched_attrs:
  "attrs (fold (\<lambda>(attr, v) ob. setattr ob attr v)
            (AList.update ''updated_at'' now (filter (\<lambda>(k, v). truthy v) (to_dict data))) ob) k =
     (if k = ''updated_at'' then now
      else if k \<in> set (columns (cls data)) \<and> truthy (attrs data k) then attrs data k
      else attrs ob k)"
  using distinct_truthy_to_dict [of data]
  by (simp add: fold_setattr_attrs distinct_update update_conv' map_of_truthy_to_dict)

text \<open>
  \<open>update_item\<close> in one equation: the clock is read once, the session executes one
  statement, and the one object found is replaced by its patched version.
\<close>

lemma update_item_eq:
  "update_item s i data t =
     (case one (id_matches s t i) of
        Inl e \<Rightarrow> (Inl e, s\<lparr>ticks := Suc (ticks s), calls := calls s @ [Execute]\<rparr>)
      | Inr a \<Rightarrow>
          (Inr a,
           s\<lparr>ticks := Suc (ticks s), calls := calls s @ [Execute],
             heap := (heap s)[a :=
               fold (\<lambda>(attr, v) ob. setattr ob attr v)
                 (AList.update ''updated_at'' (VTime (clock s (ticks s)))
                    (filter (\<lambda>(k, v). truthy v) (to_dict data)))
                 (heap s ! a)]\<rparr>))"
  by (simp add: update_item_def datetime_now_def read_item_by_id_def execute_def
        where_eq_def select_def row_matches_def id_matches_def Let_def split: sum.splits)


lemma update_item_attrs:
  assumes "wf_session s" and "id_matches s t i = [a]"
  shows "attrs (heap (snd (update_item s i data t)) ! a) k =
           (if k = ''updated_at'' then VTime (clock s (ticks s))
            else if k \<in> set (columns (cls data)) \<and> truthy (attrs data k) then attrs data k
            else attrs (heap s ! a) k)"
proof -
  from assms have "a < length (heap s)"
    using id_matches_mem wf_persistent by blast
  with assms(2) show ?thesis
    by (simp add: update_item_eq patched_attrs)
qed


lemma columns_Item:
  "set (columns Item) = {''id'', ''created_at'', ''updated_at'', ''name'', ''count'', ''active''}"
  by (auto simp: columns_def base_columns_def Item_def)

text \<open>
  C1. For an existing record \<open>r\<close> with identifier \<open>id\<close>, \<open>update_item\<close> applies onto
  \<open>r\<close> exactly the attributes of \<open>data\<close> whose values are truthy, leaves the attributes
  whose payload value is falsy as they were, and sets \<open>updated_at\<close> to the current
  time whatever the payload holds.
\<close>

theorem update_item_applies_truthy:
  assumes "wf_session s" and "fst (read_item_by_id s t i) = Inr a"
  shows "fst (update_item s i data t) = Inr a \<and>
         (\<forall>k. attrs (heap (snd (update_item s i data t)) ! a) k =
            (if k = ''updated_at'' then VTime (clock s (ticks s))
             else if k \<in> set (columns (cls data)) \<and> truthy (attrs data k) then attrs data k
             else attrs (heap s ! a) k))"
proof -
  from assms(2) have "one (id_matches s t i) = Inr a"
    by (simp add: read_item_by_id_one)
  then have m: "id_matches s t i = [a]" by (rule one_Inr_mem)
  then have "fst (update_item s i data t) = Inr a"
    by (simp add: update_item_eq)
  with update_item_attrs [OF assms(1) m] show ?thesis by simp
qed

theorem update_item_applies_truthy_witness:
  "fst (update_item two_rows (VUuid 11) bob Item) = Inr 0 \<and>
   attrs (heap (snd (update_item two_rows (VUuid 11) bob Item)) ! 0) ''name'' = VStr ''Bob'' \<and>
   attrs (heap (snd (update_item two_rows (VUuid 11) bob Item)) ! 0) ''count'' = VInt 5 \<and>
   attrs (heap (snd (update_item two_rows (VUuid 11) bob Item)) ! 0) ''active'' = VBool True \<and>
   attrs (heap (snd (update_item two_rows (VUuid 11) bob Item)) ! 0) ''updated_at'' = VTime 100"
proof -
  have r: "fst (read_item_by_id two_rows Item (VUuid 11)) = Inr 0"
    by (simp add: read_item_by_id_one id_matches_def two_rows_def empty_session_def
          alice_def carol_def Item_def)
  note u = update_item_applies_truthy [OF wf_two_rows r, of bob]
  have c: "cls bob = Item" by (simp add: bob_def)
  have h: "heap two_rows ! 0 = alice" by (simp add: two_rows_def empty_session_def)
  have t: "clock two_rows (ticks two_rows) = 100" by (simp add: two_rows_def empty_session_def)
  from u show ?thesis
    by (simp add: c h t columns_Item) (simp add: bob_def alice_def)
qed








section \<open>Lookup by attributes\<close>


lemma build_filters_unknown:
  "(k, v) \<in> set kwargs \<Longrightarrow> v \<noteq> VNone \<Longrightarrow> k \<notin> set (columns t) \<Longrightarrow>
   \<exists>k'. k' \<notin> set (columns t) \<and> build_filters t kwargs st = Inl (KeyError k')"
proof (induction kwargs arbitrary: st)
  case Nil
  then show ?case by simp
next
  case (Cons p kwargs)
  obtain k0 v0 where p: "p = (k0, v0)" by (cases p)
  show ?case
  proof (cases "v0 \<noteq> VNone \<and> k0 \<notin> set (columns t)")
    case True
    with p show ?thesis by (auto simp: column_def)
  next
    case False
    with p Cons.prems have "(k, v) \<in> set kwargs" by auto
    from Cons.IH [OF this Cons.prems(2,3)] p False show ?thesis
      by (auto simp: column_def)
  qed
qed

lemma build_filters_skips_None:
  "build_filters t (kw1 @ (k, VNone) # kw2) st = build_filters t (kw1 @ kw2) st"
  by (induction kw1 arbitrary: st) (auto split: sum.splits)

lemma read_items_by_attrs_skips_None:
  "read_items_by_attrs s t (kw1 @ (k, VNone) # kw2) = read_items_by_attrs s t (kw1 @ kw2)"
  by (simp add: read_items_by_attrs_def build_filters_skips_None)




lemma read_items_by_attrs_unknown:
  assumes "(k, v) \<in> set kwargs" and "v \<noteq> VNone" and "k \<notin> set (columns t)"
  shows "\<exists>k'. k' \<notin> set (columns t) \<and> read_items_by_attrs s t kwargs = (Inl (KeyError k'), s)"
proof -
  from build_filters_unknown [OF assms, where st = "select t"]
  obtain k' where "k' \<notin> set (columns t)" "build_filters t kwargs (select t) = Inl (KeyError k')"
    by blast
  then show ?thesis by (auto simp: read_items_by_attrs_def)
qed

lemma bogus_not_column: "''bogus'' \<notin> set (columns Item)"
  by (simp add: columns_Item)




text \<open>
  C10. A keyword filter whose name is not a column of the table and whose value is not
  \<open>None\<close> makes \<open>read_items_by_attrs\<close> raise the \<open>KeyError\<close> of the column lookup,
  before any statement is executed; the filter is neither skipped nor answered with an
  empty result. A filter of that name is skipped only when its value is \<open>None\<close>.
\<close>

theorem read_items_by_attrs_unknown_column:
  "((k, v) \<in> set kwargs \<and> v \<noteq> VNone \<and> k \<notin> set (columns t) \<longrightarrow>
      (\<exists>k'. k' \<notin> set (columns t) \<and>
            read_items_by_attrs s t kwargs = (Inl (KeyError k'), s))) \<and>
   read_items_by_attrs s t (kw1 @ (k, VNone) # kw2) = read_items_by_attrs s t (kw1 @ kw2)"
  using read_items_by_attrs_unknown [where k = k and v = v and kwargs = kwargs and t = t and s = s]
        read_items_by_attrs_skips_None
          [where s = s and t = t and ?kw1.0 = kw1 and k = k and ?kw2.0 = kw2]
  by blast

theorem read_items_by_attrs_unknown_column_witness:
  "(\<exists>k'. k' \<notin> set (columns Item) \<and>
      read_items_by_attrs two_rows Item [(''name'', VStr ''Alice''), (''bogus'', VInt 1)] =
        (Inl (KeyError k'), two_rows)) \<and>
   read_items_by_attrs two_rows Item [(''bogus'', VNone)] = read_items_by_attrs two_rows Item []"
  using read_items_by_attrs_unknown_column
          [where k = "''bogus''" and v = "VInt 1"
             and kwargs = "[(''name'', VStr ''Alice''), (''bogus'', VInt 1)]"
             and t = Item and s = two_rows and ?kw1.0 = "[]" and ?kw2.0 = "[]"]
        bogus_not_column
  by simp

section \<open>Flushing staged objects\<close>

lemmas insert_row_defs = insert_row_def apply_default_def uuid4_def datetime_now_def setattr_def Let_def

lemma insert_row_frame:
  "new (snd (insert_row a s)) = new s"
  "calls (snd (insert_row a s)) = calls s"
  "clock (snd (insert_row a s)) = clock s"
  "uuids (snd (insert_row a s)) = uuids s"
  "length (heap (snd (insert_row a s))) = length (heap s)"
  "ticks s \<le> ticks (snd (insert_row a s))"
  by (simp_all add: insert_row_defs)

lemma insert_row_persistent:
  "persistent (snd (insert_row a s)) =
     (if fst (insert_row a s) = Inr () then persistent s @ [a] else persistent s)"
  by (simp add: insert_row_defs)

lemma insert_row_others:
  "b \<noteq> a \<Longrightarrow> heap (snd (insert_row a s)) ! b = heap s ! b"
  by (simp add: insert_row_defs)

lemma insert_row_cls:
  "a < length (heap s) \<Longrightarrow> cls (heap (snd (insert_row a s)) ! a) = cls (heap s ! a)"
  by (simp add: insert_row_defs)

lemma insert_row_attrs:
  "a < length (heap s) \<Longrightarrow> k \<notin> set base_columns \<Longrightarrow>
   attrs (heap (snd (insert_row a s)) ! a) k = attrs (heap s ! a) k"
  by (simp add: insert_row_defs base_columns_def)

lemma insert_row_timestamps:
  "a < length (heap s) \<Longrightarrow> attrs (heap s ! a) ''created_at'' = VNone \<Longrightarrow>
   attrs (heap s ! a) ''updated_at'' = VNone \<Longrightarrow>
   attrs (heap (snd (insert_row a s)) ! a) ''created_at'' = VTime (clock s (ticks s)) \<and>
   attrs (heap (snd (insert_row a s)) ! a) ''updated_at'' = VTime (clock s (Suc (ticks s))) \<and>
   ticks (snd (insert_row a s)) = Suc (Suc (ticks s))"
  by (simp add: insert_row_defs)

lemma insert_row_id:
  "a < length (heap s) \<Longrightarrow> attrs (heap (snd (insert_row a s)) ! a) ''id'' \<noteq> VNone"
  by (simp add: insert_row_defs)

lemma apply_default_persistent:
  "persistent (apply_default col uuid4 a s) = persistent s"
  "persistent (apply_default col datetime_now a s) = persistent s"
  by (simp_all add: apply_default_def uuid4_def datetime_now_def)

lemma insert_row_unique:
  "fst (insert_row a s) = Inr () \<Longrightarrow> b \<in> set (persistent s) \<Longrightarrow>
   \<not> (cls (heap (snd (insert_row a s)) ! b) = cls (heap (snd (insert_row a s)) ! a) \<and>
      attrs (heap (snd (insert_row a s)) ! b) ''id'' =
        attrs (heap (snd (insert_row a s)) ! a) ''id'')"
  by (auto simp: insert_row_def Let_def list_ex_iff apply_default_persistent split: if_splits)


lemma flush_rows_Cons:
  "flush_rows (a # as) s =
     (case fst (insert_row a s) of
        Inl e \<Rightarrow> insert_row a s
      | Inr u \<Rightarrow> flush_rows as (snd (insert_row a s)))"
  by (cases "insert_row a s") (auto split: sum.splits)

lemma flush_rows_frame:
  "new (snd (flush_rows xs s)) = new s \<and>
   calls (snd (flush_rows xs s)) = calls s \<and>
   clock (snd (flush_rows xs s)) = clock s \<and>
   length (heap (snd (flush_rows xs s))) = length (heap s) \<and>
   ticks s \<le> ticks (snd (flush_rows xs s))"
proof (induction xs arbitrary: s)
  case Nil
  then show ?case by simp
next
  case (Cons a xs)
  note f = insert_row_frame [where a = a and s = s]
  show ?case
  proof (cases "fst (insert_row a s)")
    case (Inl e)
    with f show ?thesis by (simp add: flush_rows_Cons del: flush_rows.simps)
  next
    case (Inr u)
    with f Cons.IH [of "snd (insert_row a s)"] show ?thesis
      by (simp add: flush_rows_Cons del: flush_rows.simps)
  qed
qed

lemma flush_rows_others:
  "b \<notin> set xs \<Longrightarrow> heap (snd (flush_rows xs s)) ! b = heap s ! b"
proof (induction xs arbitrary: s)
  case Nil
  then show ?case by simp
next
  case (Cons a xs)
  then have ba: "b \<noteq> a" and bx: "b \<notin> set xs" by auto
  note o = insert_row_others [OF ba, where s = s]
  show ?case
  proof (cases "fst (insert_row a s)")
    case (Inl e)
    with o show ?thesis by (simp add: flush_rows_Cons del: flush_rows.simps)
  next
    case (Inr u)
    with o Cons.IH [OF bx, of "snd (insert_row a s)"] show ?thesis
      by (simp add: flush_rows_Cons del: flush_rows.simps)
  qed
qed

lemma flush_rows_snoc:
  "flush_rows (xs @ [a]) s =
     (case fst (flush_rows xs s) of
        Inl e \<Rightarrow> flush_rows xs s
      | Inr u \<Rightarrow> insert_row a (snd (flush_rows xs s)))"
proof (induction xs arbitrary: s)
  case Nil
  show ?case by (cases "insert_row a s") (auto split: sum.splits)
next
  case (Cons x xs)
  show ?case
  proof (cases "fst (insert_row x s)")
    case (Inl e)
    then show ?thesis by (simp add: flush_rows_Cons del: flush_rows.simps)
  next
    case (Inr u)
    with Cons.IH [of "snd (insert_row x s)"] show ?thesis
      by (simp add: flush_rows_Cons del: flush_rows.simps split: sum.splits)
  qed
qed


lemma flush_add_eq:
  "flush (snd (add s data)) =
     (case fst (flush_rows (new s) (staged s data)) of
        Inl e \<Rightarrow> (Inl e, earlier_flushed s data)
      | Inr u \<Rightarrow>
          (case fst (insert_row (length (heap s)) (earlier_flushed s data)) of
             Inl e \<Rightarrow> (Inl e, snd (insert_row (length (heap s)) (earlier_flushed s data)))
           | Inr u \<Rightarrow>
               (Inr (), (snd (insert_row (length (heap s)) (earlier_flushed s data)))\<lparr>new := []\<rparr>)))"
proof -
  have n: "new (snd (add s data)) = new s @ [length (heap s)]"
    by (simp add: add_def)
  show ?thesis
    unfolding flush_def n staged_def [symmetric] flush_rows_snoc earlier_flushed_def [symmetric]
    by (cases "flush_rows (new s) (staged s data)";
        cases "insert_row (length (heap s)) (earlier_flushed s data)")
       (auto simp: earlier_flushed_def split: sum.splits)
qed

lemma earlier_flushed_frame:
  "length (heap (earlier_flushed s data)) = Suc (length (heap s))"
  "clock (earlier_flushed s data) = clock s"
  "calls (earlier_flushed s data) = calls s @ [Add, Flush]"
  "ticks s \<le> ticks (earlier_flushed s data)"
  using flush_rows_frame [where xs = "new s" and s = "staged s data"]
  by (simp_all add: earlier_flushed_def staged_def add_def)

lemma wf_new: "wf_session s \<Longrightarrow> length (heap s) \<notin> set (new s)"
  by (auto simp: wf_session_def list_all_iff)

lemma earlier_flushed_candidate:
  "wf_session s \<Longrightarrow> heap (earlier_flushed s data) ! length (heap s) = data"
  using flush_rows_others [where b = "length (heap s)" and xs = "new s" and s = "staged s data"]
  by (simp add: wf_new earlier_flushed_def staged_def add_def)


lemma create_item_eq:
  "create_item s t data =
     (case fst (flush (snd (add s data))) of
        Inl e \<Rightarrow> (Inl e, after_flush s data)
      | Inr u \<Rightarrow>
          read_item_by_id (after_flush s data) t
            (attrs (heap (after_flush s data) ! length (heap s)) ''id''))"
  by (cases "flush (snd (add s data))")
     (auto simp: create_item_def add_def after_flush_def split: sum.splits)

lemma flush_ok:
  assumes "fst (flush (snd (add s data))) = Inr ()"
  shows "fst (insert_row (length (heap s)) (earlier_flushed s data)) = Inr ()"
    and "after_flush s data =
           (snd (insert_row (length (heap s)) (earlier_flushed s data)))\<lparr>new := []\<rparr>"
  using assms
  by (auto simp: flush_add_eq after_flush_def split: sum.splits)

lemma after_flush_facts:
  assumes wf: "wf_session s" and ok: "fst (flush (snd (add s data))) = Inr ()"
  shows "new (after_flush s data) = []"
    and "calls (after_flush s data) = calls s @ [Add, Flush]"
    and "clock (after_flush s data) = clock s"
    and "persistent (after_flush s data) = persistent (earlier_flushed s data) @ [length (heap s)]"
    and "cls (heap (after_flush s data) ! length (heap s)) = cls data"
    and "attrs (heap (after_flush s data) ! length (heap s)) ''id'' \<noteq> VNone"
    and "k \<notin> set base_columns \<Longrightarrow>
           attrs (heap (after_flush s data) ! length (heap s)) k = attrs data k"
proof -
  let ?a = "length (heap s)"
  let ?E = "earlier_flushed s data"
  note ins = flush_ok [OF ok]
  have lt: "?a < length (heap ?E)" by (simp add: earlier_flushed_frame)
  have cand: "heap ?E ! ?a = data" using wf by (rule earlier_flushed_candidate)
  show "new (after_flush s data) = []" by (simp add: ins(2))
  show "calls (after_flush s data) = calls s @ [Add, Flush]"
    by (simp add: ins(2) insert_row_frame earlier_flushed_frame)
  show "clock (after_flush s data) = clock s"
    by (simp add: ins(2) insert_row_frame earlier_flushed_frame)
  show "persistent (after_flush s data) = persistent ?E @ [?a]"
    by (simp add: ins insert_row_persistent)
  show "cls (heap (after_flush s data) ! ?a) = cls data"
    using insert_row_cls [OF lt] cand by (simp add: ins(2))
  show "attrs (heap (after_flush s data) ! ?a) ''id'' \<noteq> VNone"
    using insert_row_id [OF lt] by (simp add: ins(2))
  show "attrs (heap (after_flush s data) ! ?a) k = attrs data k" if "k \<notin> set base_columns"
    using insert_row_attrs [OF lt that] cand by (simp add: ins(2))
qed

lemma after_flush_unique:
  assumes ok: "fst (flush (snd (add s data))) = Inr ()"
    and b: "b \<in> set (persistent (earlier_flushed s data))"
  shows "\<not> (cls (heap (after_flush s data) ! b) = cls (heap (after_flush s data) ! length (heap s)) \<and>
            attrs (heap (after_flush s data) ! b) ''id'' =
              attrs (heap (after_flush s data) ! length (heap s)) ''id'')"
  using insert_row_unique [OF flush_ok(1) [OF ok] b] by (simp add: flush_ok(2) [OF ok])

lemma after_flush_timestamps:
  assumes wf: "wf_session s" and ok: "fst (flush (snd (add s data))) = Inr ()"
    and c: "attrs data ''created_at'' = VNone" and u: "attrs data ''updated_at'' = VNone"
  shows "\<exists>n\<ge>ticks s.
           attrs (heap (after_flush s data) ! length (heap s)) ''created_at'' = VTime (clock s n) \<and>
           attrs (heap (after_flush s data) ! length (heap s)) ''updated_at'' =
             VTime (clock s (Suc n)) \<and>
           ticks (after_flush s data) = Suc (Suc n)"
proof -
  let ?a = "length (heap s)"
  let ?E = "earlier_flushed s data"
  have lt: "?a < length (heap ?E)" by (simp add: earlier_flushed_frame)
  have cand: "heap ?E ! ?a = data" using wf by (rule earlier_flushed_candidate)
  from insert_row_timestamps [OF lt] cand c u
  have "attrs (heap (after_flush s data) ! ?a) ''created_at'' = VTime (clock s (ticks ?E)) \<and>
        attrs (heap (after_flush s data) ! ?a) ''updated_at'' = VTime (clock s (Suc (ticks ?E))) \<and>
        ticks (after_flush s data) = Suc (Suc (ticks ?E))"
    by (simp add: flush_ok(2) [OF ok] earlier_flushed_frame)
  moreover have "ticks s \<le> ticks ?E" by (rule earlier_flushed_frame)
  ultimately show ?thesis by blast
qed

lemma after_flush_id_matches:
  assumes wf: "wf_session s" and ok: "fst (flush (snd (add s data))) = Inr ()"
  shows "id_matches (after_flush s data) (cls data)
           (attrs (heap (after_flush s data) ! length (heap s)) ''id'') = [length (heap s)]"
proof -
  let ?a = "length (heap s)"
  let ?F = "after_flush s data"
  let ?P = "\<lambda>b. cls (heap ?F ! b) = cls data \<and> attrs (heap ?F ! b) ''id'' = attrs (heap ?F ! ?a) ''id''"
  note f = after_flush_facts [OF wf ok]
  have "\<not> ?P b" if "b \<in> set (persistent (earlier_flushed s data))" for b
    using after_flush_unique [OF ok that] f(5) by simp
  then have "filter ?P (persistent (earlier_flushed s data)) = []"
    by (simp add: filter_empty_conv)
  moreover have "?P ?a" using f(5) by simp
  ultimately show ?thesis
    by (simp add: id_matches_def f(4))
qed

section \<open>Creation\<close>

lemma id_matches_calls [simp]: "id_matches (s\<lparr>calls := cs\<rparr>) t i = id_matches s t i"
  by (simp add: id_matches_def)

lemma create_item_flushed:
  assumes "fst (flush (snd (add s data))) = Inr ()"
  shows "create_item s t data =
           read_item_by_id (after_flush s data) t
             (attrs (heap (after_flush s data) ! length (heap s)) ''id'')"
  using assms by (simp add: create_item_eq)

lemma create_item_session:
  assumes "fst (flush (snd (add s data))) = Inr ()"
  shows "snd (create_item s t data) =
           (after_flush s data)\<lparr>calls := calls (after_flush s data) @ [Execute]\<rparr>"
  by (simp add: create_item_flushed [OF assms] read_item_by_id_session)

lemma create_item_own_table:
  assumes wf: "wf_session s" and ok: "fst (flush (snd (add s data))) = Inr ()"
  shows "fst (create_item s (cls data) data) = Inr (length (heap s))"
  by (simp add: create_item_flushed [OF ok] read_item_by_id_one after_flush_id_matches [OF wf ok])

text \<open>
  C5. \<open>create_item\<close> stages the candidate, flushes the session so that the
  server-assigned identifier is there, and returns what re-reading by that identifier
  gives: the persisted candidate when the table is the candidate's own, and
  \<open>NoResultFound\<close> when the re-read matches no row. (A flush that fails, on a repeated
  primary key, propagates instead.)
\<close>

theorem create_item_stages_flushes_rereads:
  assumes "wf_session s" and "fst (flush (snd (add s data))) = Inr ()"
  shows "create_item s t data =
           read_item_by_id (after_flush s data) t
             (attrs (heap (after_flush s data) ! length (heap s)) ''id'') \<and>
         calls (snd (create_item s t data)) = calls s @ [Add, Flush, Execute] \<and>
         new (snd (create_item s t data)) = [] \<and>
         length (heap s) \<in> set (persistent (snd (create_item s t data))) \<and>
         attrs (heap (after_flush s data) ! length (heap s)) ''id'' \<noteq> VNone \<and>
         (cls data = t \<longrightarrow> fst (create_item s t data) = Inr (length (heap s))) \<and>
         (id_matches (after_flush s data) t
            (attrs (heap (after_flush s data) ! length (heap s)) ''id'') = [] \<longrightarrow>
            fst (create_item s t data) = Inl NoResultFound)"
proof -
  note f = after_flush_facts [OF assms]
  note e = create_item_flushed [OF assms(2), of t]
  note s' = create_item_session [OF assms(2), of t]
  have "calls (snd (create_item s t data)) = calls s @ [Add, Flush, Execute]"
    by (simp add: s' f(2))
  moreover have "new (snd (create_item s t data)) = []"
    by (simp add: s' f(1))
  moreover have "length (heap s) \<in> set (persistent (snd (create_item s t data)))"
    by (simp add: s' f(4))
  moreover have "fst (create_item s t data) = Inr (length (heap s))" if "cls data = t"
    using create_item_own_table [OF assms] that by simp
  moreover have "fst (create_item s t data) = Inl NoResultFound"
    if "id_matches (after_flush s data) t
          (attrs (heap (after_flush s data) ! length (heap s)) ''id'') = []"
    using that by (simp add: e read_item_by_id_one)
  ultimately show ?thesis using e f(6) by blast
qed

lemma wf_empty_session: "wf_session empty_session"
  by (simp add: wf_session_def empty_session_def)

lemma flush_bob: "fst (flush (snd (add empty_session bob))) = Inr ()"
  by code_simp

theorem create_item_stages_flushes_rereads_witness:
  "fst (create_item empty_session Item bob) = Inr 0 \<and>
   calls (snd (create_item empty_session Item bob)) = [Add, Flush, Execute] \<and>
   new (snd (create_item empty_session Item bob)) = [] \<and>
   0 \<in> set (persistent (snd (create_item empty_session Item bob))) \<and>
   fst (create_item empty_session Other bob) = Inl NoResultFound"
proof -
  have l: "length (heap empty_session) = 0" "calls empty_session = []"
    by (simp_all add: empty_session_def)
  have c: "cls bob = Item" by (simp add: bob_def)
  have m: "id_matches (after_flush empty_session bob) Other
             (attrs (heap (after_flush empty_session bob) ! length (heap empty_session)) ''id'') = []"
    by code_simp
  note item = create_item_stages_flushes_rereads [OF wf_empty_session flush_bob, of Item, unfolded l]
  note other = create_item_stages_flushes_rereads [OF wf_empty_session flush_bob, of Other, unfolded l]
  from item c have "fst (create_item empty_session Item bob) = Inr 0"
    and "calls (snd (create_item empty_session Item bob)) = [] @ [Add, Flush, Execute]"
    and "new (snd (create_item empty_session Item bob)) = []"
    and "0 \<in> set (persistent (snd (create_item empty_session Item bob)))"
    by blast+
  moreover from other m [unfolded l] have "fst (create_item empty_session Other bob) = Inl NoResultFound"
    by blast
  ultimately show ?thesis by simp
qed

text \<open>
  C6, as stated: after \<open>create_item\<close>, reading the record back gives \<open>created_at\<close>
  equal to \<open>updated_at\<close>. It does not: each of the two columns has a default of its
  own, and the clock is read once for each.
\<close>

theorem create_item_timestamps_differ_counterexample:
  "fst (create_item empty_session Item bob) = Inr 0 \<and>
   fst (read_item_by_id (snd (create_item empty_session Item bob)) Item
          (attrs (heap (snd (create_item empty_session Item bob)) ! 0) ''id'')) = Inr 0 \<and>
   attrs (heap (snd (create_item empty_session Item bob)) ! 0) ''created_at'' \<noteq>
     attrs (heap (snd (create_item empty_session Item bob)) ! 0) ''updated_at''"
  by code_simp

text \<open>
  C6, amended. For a candidate of the table's class whose flush succeeds, \<open>create_item\<close>
  followed by \<open>read_item_by_id\<close> on the returned identifier yields the created record,
  equal to the candidate in every attribute other than \<open>id\<close>, \<open>created_at\<close> and
  \<open>updated_at\<close>; for a candidate that carries no timestamp, \<open>created_at\<close> and
  \<open>updated_at\<close> are two consecutive readings of the clock, so that
  \<open>created_at \<le> updated_at\<close> when the clock does not run backwards.
\<close>

theorem create_then_read:
  assumes "wf_session s" and "cls data = t" and "fst (flush (snd (add s data))) = Inr ()"
  shows "fst (create_item s t data) = Inr (length (heap s)) \<and>
         read_item_by_id (snd (create_item s t data)) t
             (attrs (heap (snd (create_item s t data)) ! length (heap s)) ''id'') =
           (Inr (length (heap s)),
            (snd (create_item s t data))
              \<lparr>calls := calls (snd (create_item s t data)) @ [Execute]\<rparr>) \<and>
         (\<forall>k. k \<notin> set base_columns \<longrightarrow>
            attrs (heap (snd (create_item s t data)) ! length (heap s)) k = attrs data k) \<and>
         (attrs data ''created_at'' = VNone \<and> attrs data ''updated_at'' = VNone \<longrightarrow>
            (\<exists>n\<ge>ticks s.
               attrs (heap (snd (create_item s t data)) ! length (heap s)) ''created_at'' =
                 VTime (clock s n) \<and>
               attrs (heap (snd (create_item s t data)) ! length (heap s)) ''updated_at'' =
                 VTime (clock s (Suc n))) \<and>
            (mono (clock s) \<longrightarrow> ts_ordered (heap (snd (create_item s t data)) ! length (heap s))))"
proof -
  let ?a = "length (heap s)"
  let ?F = "after_flush s data"
  let ?S = "snd (create_item s t data)"
  note wf = assms(1) and ok = assms(3)
  note f = after_flush_facts [OF wf ok]
  have s': "?S = ?F\<lparr>calls := calls ?F @ [Execute]\<rparr>" by (rule create_item_session [OF ok])
  have h: "heap ?S = heap ?F" by (simp add: s')
  have r: "fst (create_item s t data) = Inr ?a"
    using create_item_own_table [OF wf ok] assms(2) by simp
  have m: "id_matches ?S t (attrs (heap ?S ! ?a) ''id'') = [?a]"
    using after_flush_id_matches [OF wf ok] assms(2) by (simp add: s')
  have rd: "read_item_by_id ?S t (attrs (heap ?S ! ?a) ''id'') =
              (Inr ?a, ?S\<lparr>calls := calls ?S @ [Execute]\<rparr>)"
    using read_item_by_id_one [of ?S t "attrs (heap ?S ! ?a) ''id''"]
          read_item_by_id_session [of ?S t "attrs (heap ?S ! ?a) ''id''"] m
    by (simp add: prod_eq_iff)
  have at: "\<forall>k. k \<notin> set base_columns \<longrightarrow> attrs (heap ?S ! ?a) k = attrs data k"
    by (simp add: h f(7))
  have ts: "(\<exists>n\<ge>ticks s.
               attrs (heap ?S ! ?a) ''created_at'' = VTime (clock s n) \<and>
               attrs (heap ?S ! ?a) ''updated_at'' = VTime (clock s (Suc n))) \<and>
            (mono (clock s) \<longrightarrow> ts_ordered (heap ?S ! ?a))"
    if n: "attrs data ''created_at'' = VNone" "attrs data ''updated_at'' = VNone"
  proof -
    from after_flush_timestamps [OF wf ok n] obtain n where n: "ticks s \<le> n"
      "attrs (heap ?F ! ?a) ''created_at'' = VTime (clock s n)"
      "attrs (heap ?F ! ?a) ''updated_at'' = VTime (clock s (Suc n))"
      by blast
    have "ts_ordered (heap ?S ! ?a)" if "mono (clock s)"
    proof -
      from that have "clock s n \<le> clock s (Suc n)" by (rule monoD) simp
      with n show ?thesis by (simp add: ts_ordered_def h)
    qed
    with n show ?thesis by (auto simp: h)
  qed
  from r rd at ts show ?thesis by blast
qed

lemma mono_sample_clock: "mono (clock empty_session)"
  by (simp add: empty_session_def mono_def)

theorem create_then_read_witness:
  "fst (create_item empty_session Item bob) = Inr 0 \<and>
   fst (read_item_by_id (snd (create_item empty_session Item bob)) Item
          (attrs (heap (snd (create_item empty_session Item bob)) ! 0) ''id'')) = Inr 0 \<and>
   attrs (heap (snd (create_item empty_session Item bob)) ! 0) ''name'' = VStr ''Bob'' \<and>
   ts_ordered (heap (snd (create_item empty_session Item bob)) ! 0)"
proof -
  have l: "length (heap empty_session) = 0" by (simp add: empty_session_def)
  have c: "cls bob = Item" by (simp add: bob_def)
  have n: "attrs bob ''created_at'' = VNone" "attrs bob ''updated_at'' = VNone"
    "attrs bob ''name'' = VStr ''Bob''" "''name'' \<notin> set base_columns"
    by (simp_all add: bob_def base_columns_def)
  from create_then_read [OF wf_empty_session c flush_bob] l n mono_sample_clock
  show ?thesis by simp
qed

section \<open>Order of the timestamps\<close>

lemma ts_bounded_iff:
  "ts_bounded s ob \<longleftrightarrow>
     (\<exists>c u. attrs ob ''created_at'' = VTime c \<and> attrs ob ''updated_at'' = VTime u \<and>
            c \<le> u \<and> c \<le> clock s (ticks s))"
  by (auto simp: ts_bounded_def split: val.splits)



lemma ts_bounded_calls [simp]: "ts_bounded (s\<lparr>calls := cs\<rparr>) ob = ts_bounded s ob"
  by (simp add: ts_bounded_iff)
















end
